theory Spec2Isabelle
  imports Main "HOL-Library.Char_ord" "HOL-Library.List_Lexorder"
begin

section \<open>promlinter: the syntax-tree matcher and literal resolver of promlinter.go\<close>

text \<open>
  A shallow embedding of \<^verbatim>\<open>src/promlinter.go\<close>. The Go syntax tree is a datatype;
  the \<^verbatim>\<open>*ast.Object\<close> an identifier points to is an address into a store of
  declarations, so that a declaration may mention itself, as the pointers of \<^verbatim>\<open>go/ast\<close>
  allow. The visitor's mutable fields are passed and returned. A Go panic is the left
  summand of the result; a recursion that never returns is the value \<open>None\<close> of a
  function that counts the depth of the calls of \<^verbatim>\<open>parseValue\<close>.
\<close>

subsection \<open>Data model\<close>

text \<open>\<^verbatim>\<open>dto.MetricType\<close> and \<^verbatim>\<open>dto.MetricFamily\<close>; a nil pointer field is \<open>None\<close>.\<close>

datatype MetricType = COUNTER | GAUGE | SUMMARY | UNTYPED | HISTOGRAM

record MetricFamily =
  Name :: "string option"
  Help :: "string option"
  Type :: "MetricType option"

text \<open>\<^verbatim>\<open>token.Position\<close>, and \<^verbatim>\<open>token.Pos\<close> as the number the file set maps to it.\<close>

record Position =
  Filename :: string
  Offset :: nat
  Line :: nat
  Column :: nat

type_synonym pos = nat

record Issue =
  Pos :: Position
  Metric :: string
  Text :: string

record opt =
  namespace :: string
  subsystem :: string
  name :: string

text \<open>\<^verbatim>\<open>promlint.Problem\<close>: what the validator reports about one metric family.\<close>

record Problem =
  pMetric :: string
  pText :: string

text \<open>
  The tokens \<^verbatim>\<open>parseValue\<close> tests (\<^verbatim>\<open>token.STRING\<close>, \<^verbatim>\<open>token.ADD\<close>) and their neighbours;
  \<open>INT_tok\<close> is \<^verbatim>\<open>token.INT\<close>.
\<close>

datatype token = INT_tok | FLOAT | IMAG | CHAR | STRING | ADD | SUB | MUL | QUO | REM | OtherToken nat

type_synonym objref = nat

text \<open>
  The nodes of \<^verbatim>\<open>go/ast\<close> the program inspects. Every node carries first the value of its
  \<^verbatim>\<open>Pos()\<close> method; the other fields are those of the Go struct that the program reads
  or that \<^verbatim>\<open>ast.Walk\<close> descends into, in the order of the walk:
  \<^item> \<open>BasicLit ValuePos Kind Value\<close>;
  \<^item> \<open>Ident NamePos Name Obj\<close>, \<open>Obj\<close> being \<open>None\<close> for a nil pointer;
  \<^item> \<open>ValueSpec pos Names Type Values\<close> and \<open>CompositeLit pos Type Elts\<close>, where \<open>Type\<close>
    is the empty list for nil and a one-element list otherwise;
  \<^item> \<open>BinaryExpr pos X Op Y\<close>, \<open>CallExpr pos Fun Args\<close>, \<open>KeyValueExpr pos Key Value\<close>,
    \<open>AssignStmt pos Lhs Rhs\<close>, \<open>SendStmt pos Chan Value\<close>;
  \<^item> \<open>SelectorExpr pos X Sel\<close>, \<open>Sel\<close> being the name of the selected identifier;
  \<^item> \<open>OtherNode pos T children\<close>: a node of any other type, \<open>T\<close> being the type as
    \<^verbatim>\<open>%T\<close> prints it and \<open>children\<close> the nodes \<^verbatim>\<open>ast.Walk\<close> descends into.
\<close>

datatype node =
    BasicLit pos token string
  | Ident pos string "objref option"
  | ValueSpec pos "node list" "node list" "node list"
  | BinaryExpr pos node token node
  | CallExpr pos node "node list"
  | SelectorExpr pos node string
  | CompositeLit pos "node list" "node list"
  | KeyValueExpr pos node node
  | AssignStmt pos "node list" "node list"
  | SendStmt pos node node
  | OtherNode pos string "node list"

fun node_Pos :: "node \<Rightarrow> pos" where
  "node_Pos (BasicLit p k s) = p"
| "node_Pos (Ident p nm obj) = p"
| "node_Pos (ValueSpec p ns ty vs) = p"
| "node_Pos (BinaryExpr p x oper y) = p"
| "node_Pos (CallExpr p f args) = p"
| "node_Pos (SelectorExpr p x sel) = p"
| "node_Pos (CompositeLit p ty elts) = p"
| "node_Pos (KeyValueExpr p k x) = p"
| "node_Pos (AssignStmt p l r) = p"
| "node_Pos (SendStmt p c x) = p"
| "node_Pos (OtherNode p t cs) = p"

text \<open>What \<^verbatim>\<open>%T\<close> prints for a node.\<close>

fun typeName :: "node \<Rightarrow> string" where
  "typeName (BasicLit p k s) = ''*ast.BasicLit''"
| "typeName (Ident p nm obj) = ''*ast.Ident''"
| "typeName (ValueSpec p ns ty vs) = ''*ast.ValueSpec''"
| "typeName (BinaryExpr p x oper y) = ''*ast.BinaryExpr''"
| "typeName (CallExpr p f args) = ''*ast.CallExpr''"
| "typeName (SelectorExpr p x sel) = ''*ast.SelectorExpr''"
| "typeName (CompositeLit p ty elts) = ''*ast.CompositeLit''"
| "typeName (KeyValueExpr p k x) = ''*ast.KeyValueExpr''"
| "typeName (AssignStmt p l r) = ''*ast.AssignStmt''"
| "typeName (SendStmt p c x) = ''*ast.SendStmt''"
| "typeName (OtherNode p t cs) = t"

text \<open>
  The visitor. \<open>metrics\<close> is the Go map keyed by the address of a fresh
  \<^verbatim>\<open>dto.MetricFamily\<close>: every store adds an entry, so the map is the list of the
  occurrences, here in the order they were recorded.
\<close>

record visitor =
  fs :: "pos \<Rightarrow> Position"
  metrics :: "(MetricFamily \<times> Position) list"
  issues :: "Issue list"
  strict :: bool

text \<open>
  What the program takes from outside \<^verbatim>\<open>promlinter.go\<close>:
  \<^item> \<open>Unquote\<close> is \<^verbatim>\<open>strconv.Unquote\<close>, \<open>None\<close> being its error;
  \<^item> \<open>Decl r\<close> is the field \<^verbatim>\<open>Decl\<close> of the object at address \<open>r\<close>, \<open>None\<close> being nil;
  \<^item> \<open>Lint\<close> is \<^verbatim>\<open>promlint.NewWithMetricFamilies([]*dto.MetricFamily{m}).Lint()\<close>,
    \<open>None\<close> being its error.
\<close>

record env =
  Unquote :: "string \<Rightarrow> string option"
  Decl :: "objref \<Rightarrow> node option"
  Lint :: "MetricFamily \<Rightarrow> Problem list option"

datatype panic = IndexOutOfRange | UnquoteError | LintError

text \<open>
  The result of a call: \<open>None\<close> when the call depth allowed is used up,
  \<open>Some (Inl p)\<close> when the call panics, \<open>Some (Inr x)\<close> when it returns \<open>x\<close>.
\<close>

type_synonym 'a res = "(panic + 'a) option"

definition ret :: "'a \<Rightarrow> 'a res" where
  "ret x = Some (Inr x)"

definition bind_res :: "'a res \<Rightarrow> ('a \<Rightarrow> 'b res) \<Rightarrow> 'b res" where
  "bind_res m f = (case m of None \<Rightarrow> None | Some (Inl p) \<Rightarrow> Some (Inl p) | Some (Inr x) \<Rightarrow> f x)"

subsection \<open>The pattern registry\<close>

definition metricsType :: "string \<rightharpoonup> MetricType" where
  "metricsType = map_of
    [(''NewCounter'', COUNTER), (''NewCounterVec'', COUNTER),
     (''NewGauge'', GAUGE), (''NewGaugeVec'', GAUGE),
     (''NewHistogram'', HISTOGRAM), (''NewHistogramVec'', HISTOGRAM),
     (''NewSummary'', SUMMARY), (''NewSummaryVec'', SUMMARY)]"

definition constMetricArgs :: "string \<rightharpoonup> nat" where
  "constMetricArgs = map_of
    [(''MustNewConstMetric'', 3), (''MustNewHistogram'', 4), (''MustNewSummary'', 4)]"

definition validOptsFields :: "string \<rightharpoonup> bool" where
  "validOptsFields = map_of
    [(''Name'', True), (''Namespace'', True), (''Subsystem'', True), (''Help'', True)]"

subsection \<open>Formatting\<close>

text \<open>\<^verbatim>\<open>strconv.Itoa\<close> on a number that is not negative, the \<^verbatim>\<open>%d\<close> of \<^verbatim>\<open>fmt\<close>.\<close>

fun itoa :: "nat \<Rightarrow> string" where
  "itoa n = (if n < 10 then [''0123456789'' ! n] else itoa (n div 10) @ [''0123456789'' ! (n mod 10)])"

declare itoa.simps [simp del]

text \<open>\<^verbatim>\<open>strings.HasSuffix\<close>.\<close>

definition HasSuffix :: "string \<Rightarrow> string \<Rightarrow> bool" where
  "HasSuffix s suffix = (length suffix \<le> length s \<and> drop (length s - length suffix) s = suffix)"

text \<open>
  \<^verbatim>\<open>token.Position.String\<close> of \<^verbatim>\<open>go/token\<close>: the file name, then the line if it is
  positive, then the column if it is not zero, and \<^verbatim>\<open>-\<close> when that is empty.
\<close>

definition Position_String :: "Position \<Rightarrow> string" where
  "Position_String p =
     (let s = Filename p;
          s = (if 0 < Line p
               then (if s \<noteq> [] then s @ '':'' else s) @ itoa (Line p) @
                    (if Column p \<noteq> 0 then '':'' @ itoa (Column p) else [])
               else s)
      in if s = [] then ''-'' else s)"

text \<open>
  \<^verbatim>\<open>prometheus.BuildFQName\<close> of client_golang: it joins the three components with
  \<^verbatim>\<open>_\<close>, leaves empty components out, and returns the empty string whenever the
  name is empty.
\<close>

definition BuildFQName :: "string \<Rightarrow> string \<Rightarrow> string \<Rightarrow> string" where
  "BuildFQName ns sub nm =
     (if nm = [] then []
      else if ns \<noteq> [] \<and> sub \<noteq> [] then ns @ ''_'' @ sub @ ''_'' @ nm
      else if ns \<noteq> [] then ns @ ''_'' @ nm
      else if sub \<noteq> [] then sub @ ''_'' @ nm
      else nm)"

subsection \<open>The literal value resolver\<close>

definition unsupported :: "visitor \<Rightarrow> string \<Rightarrow> node \<Rightarrow> visitor" where
  "unsupported v object n =
     (if strict v
      then v\<lparr>issues := issues v @
             [\<lparr>Pos = fs v (node_Pos n), Metric = [],
               Text = ''parsing field '' @ object @ '' with type '' @ typeName n @ '' is not supported''\<rparr>]\<rparr>
      else v)"

fun parseValue :: "nat \<Rightarrow> env \<Rightarrow> visitor \<Rightarrow> string \<Rightarrow> node \<Rightarrow> (visitor \<times> string \<times> bool) res" where
  "parseValue 0 e v object n = None"
| "parseValue (Suc k) e v object (BasicLit p kind val) =
     (if kind = STRING
      then (case Unquote e val of
              None \<Rightarrow> Some (Inl UnquoteError)
            | Some s \<Rightarrow> ret (v, s, True))
      else ret (v, [], False))"
| "parseValue (Suc k) e v object (Ident p nm obj) =
     (case obj of
        None \<Rightarrow> ret (v, [], False)
      | Some r \<Rightarrow>
          (case Decl e r of
             Some (ValueSpec p' ns ty vals) \<Rightarrow> parseValue k e v object (ValueSpec p' ns ty vals)
           | _ \<Rightarrow> ret (v, [], False)))"
| "parseValue (Suc k) e v object (ValueSpec p ns ty vals) =
     (case vals of
        [] \<Rightarrow> ret (v, [], False)
      | x # xs \<Rightarrow> parseValue k e v object x)"
| "parseValue (Suc k) e v object (BinaryExpr p x oper y) =
     (if oper = ADD
      then bind_res (parseValue k e v object x) (\<lambda>(v1, sx, okx).
             if \<not> okx then ret (v1, [], False)
             else bind_res (parseValue k e v1 object y) (\<lambda>(v2, sy, oky).
                    if \<not> oky then ret (v2, [], False)
                    else ret (v2, sx @ sy, True)))
      else ret (v, [], False))"
| "parseValue (Suc k) e v object n = ret (unsupported v object n, [], False)"

subsection \<open>The options extractor\<close>

text \<open>
  The loop of \<^verbatim>\<open>parseCompositeOpts\<close> over \<^verbatim>\<open>stmt.Elts\<close>: \<open>mo\<close> is \<^verbatim>\<open>metricOption\<close>,
  \<open>help\<close> the pointer \<^verbatim>\<open>help\<close>. The result \<open>(None, None)\<close> is \<^verbatim>\<open>return nil, nil\<close>.
\<close>

fun parseElts :: "nat \<Rightarrow> env \<Rightarrow> visitor \<Rightarrow> opt \<Rightarrow> string option \<Rightarrow> node list
    \<Rightarrow> (visitor \<times> opt option \<times> string option) res" where
  "parseElts k e v mo help [] = ret (v, Some mo, help)"
| "parseElts k e v mo help (KeyValueExpr p (Ident pk nm obj) val # elts) =
     (if validOptsFields nm = None then parseElts k e v mo help elts
      else bind_res (parseValue k e v nm val) (\<lambda>(v1, stringLiteral, ok).
             if \<not> ok then ret (v1, None, None)
             else if nm = ''Namespace'' then parseElts k e v1 (mo\<lparr>namespace := stringLiteral\<rparr>) help elts
             else if nm = ''Subsystem'' then parseElts k e v1 (mo\<lparr>subsystem := stringLiteral\<rparr>) help elts
             else if nm = ''Name'' then parseElts k e v1 (mo\<lparr>name := stringLiteral\<rparr>) help elts
             else if nm = ''Help'' then parseElts k e v1 mo (Some stringLiteral) elts
             else parseElts k e v1 mo help elts))"
| "parseElts k e v mo help (elt # elts) = parseElts k e v mo help elts"

text \<open>\<^verbatim>\<open>parseCompositeOpts\<close>, on the field \<^verbatim>\<open>Elts\<close> of the composite literal.\<close>

definition parseCompositeOpts :: "nat \<Rightarrow> env \<Rightarrow> visitor \<Rightarrow> node list
    \<Rightarrow> (visitor \<times> opt option \<times> string option) res" where
  "parseCompositeOpts k e v elts =
     parseElts k e v \<lparr>namespace = [], subsystem = [], name = []\<rparr> None elts"

definition parseOpts :: "nat \<Rightarrow> env \<Rightarrow> visitor \<Rightarrow> node
    \<Rightarrow> (visitor \<times> opt option \<times> string option) res" where
  "parseOpts k e v n =
     (case n of
        CompositeLit p ty elts \<Rightarrow> parseCompositeOpts k e v elts
      | Ident p nm (Some r) \<Rightarrow>
          (case Decl e r of
             Some (AssignStmt pa lhs (CompositeLit pc ty elts # rhs)) \<Rightarrow> parseCompositeOpts k e v elts
           | _ \<Rightarrow> ret (v, None, None))
      | _ \<Rightarrow> ret (v, None, None))"

subsection \<open>The direct-constructor path\<close>

text \<open>
  The first switch of \<^verbatim>\<open>parseCallerExpr\<close>: the name looked up in the registry, for an
  identifier or a selector; any other callee returns at once.
\<close>

definition calleeName :: "node \<Rightarrow> string option" where
  "calleeName fn =
     (case fn of
        Ident p nm obj \<Rightarrow> Some nm
      | SelectorExpr p x sel \<Rightarrow> Some sel
      | _ \<Rightarrow> None)"

definition argCountIssue :: "visitor \<Rightarrow> pos \<Rightarrow> string \<Rightarrow> nat \<Rightarrow> Issue" where
  "argCountIssue v p methodName argNum =
     \<lparr>Pos = fs v p, Metric = [],
      Text = methodName @ '' should have at least '' @ itoa argNum @ '' arguments''\<rparr>"

text \<open>\<^verbatim>\<open>parseCallerExpr\<close>, on the fields of the call: its position, \<^verbatim>\<open>Fun\<close> and \<^verbatim>\<open>Args\<close>.\<close>

definition parseCallerExpr :: "nat \<Rightarrow> env \<Rightarrow> visitor \<Rightarrow> pos \<Rightarrow> node \<Rightarrow> node list \<Rightarrow> visitor res" where
  "parseCallerExpr k e v p fn args =
     (case calleeName fn of
        None \<Rightarrow> ret v
      | Some methodName \<Rightarrow>
          (case metricsType methodName of
             None \<Rightarrow> ret v
           | Some metricType \<Rightarrow>
               (let argNum = (if HasSuffix methodName ''Vec'' then 2 else 1) in
                if length args < 1 \<and> strict v
                then ret (v\<lparr>issues := issues v @ [argCountIssue v p methodName argNum]\<rparr>)
                else (case args of
                        [] \<Rightarrow> Some (Inl IndexOutOfRange)
                      | a0 # rest \<Rightarrow>
                          (let optsPosition = fs v (node_Pos a0) in
                           bind_res (parseOpts k e v a0) (\<lambda>(v1, opts, help).
                             case opts of
                               None \<Rightarrow> ret v1
                             | Some mo \<Rightarrow>
                                 ret (v1\<lparr>metrics := metrics v1 @
                                   [(\<lparr>Name = Some (BuildFQName (namespace mo) (subsystem mo) (name mo)),
                                      Help = help, Type = Some metricType\<rparr>, optsPosition)]\<rparr>)))))))"

subsection \<open>The const-metric send path\<close>

definition parseNewDescCallExpr :: "nat \<Rightarrow> env \<Rightarrow> visitor \<Rightarrow> pos \<Rightarrow> node list
    \<Rightarrow> (visitor \<times> string option \<times> string option) res" where
  "parseNewDescCallExpr k e v p args =
     (if length args \<noteq> 4 \<and> strict v
      then ret (v\<lparr>issues := issues v @
                  [\<lparr>Pos = fs v p, Metric = [], Text = ''NewDesc should have 4 args''\<rparr>]\<rparr>, None, None)
      else (case args of
              [] \<Rightarrow> Some (Inl IndexOutOfRange)
            | a0 # rest \<Rightarrow>
                bind_res (parseValue k e v ''fqName'' a0) (\<lambda>(v1, nm, ok).
                  if \<not> ok then ret (v1, None, None)
                  else (case rest of
                          [] \<Rightarrow> Some (Inl IndexOutOfRange)
                        | a1 # rest' \<Rightarrow>
                            bind_res (parseValue k e v1 ''help'' a1) (\<lambda>(v2, help, ok').
                              if \<not> ok' then ret (v2, None, None)
                              else ret (v2, Some nm, Some help))))))"

text \<open>What \<^verbatim>\<open>%T\<close> prints for the field \<^verbatim>\<open>Decl\<close> of an object.\<close>

definition declTypeName :: "node option \<Rightarrow> string" where
  "declTypeName d = (case d of None \<Rightarrow> ''<nil>'' | Some n \<Rightarrow> typeName n)"

definition parseConstMetricOpts :: "nat \<Rightarrow> env \<Rightarrow> visitor \<Rightarrow> node
    \<Rightarrow> (visitor \<times> string option \<times> string option) res" where
  "parseConstMetricOpts k e v n =
     (case n of
        CallExpr p f args \<Rightarrow> parseNewDescCallExpr k e v p args
      | Ident p nm (Some r) \<Rightarrow>
          (case Decl e r of
             Some (AssignStmt pa lhs (CallExpr pc f args # rhs)) \<Rightarrow> parseNewDescCallExpr k e v pc args
           | Some (ValueSpec pv ns ty (CallExpr pc f args # vals)) \<Rightarrow> parseNewDescCallExpr k e v pc args
           | d \<Rightarrow>
               ret (if strict v
                    then v\<lparr>issues := issues v @
                           [\<lparr>Pos = fs v p, Metric = [],
                             Text = ''parsing desc of type '' @ declTypeName d @ '' is not supported''\<rparr>]\<rparr>
                    else v, None, None))
      | _ \<Rightarrow> ret (v, None, None))"

definition getConstMetricType :: "string \<Rightarrow> MetricType option" where
  "getConstMetricType nm =
     Some (if nm = ''CounterValue'' then COUNTER
           else if nm = ''GaugeValue'' then GAUGE
           else UNTYPED)"

text \<open>
  The first switch of \<^verbatim>\<open>parseSendMetricChanExpr\<close>: \<^verbatim>\<open>requiredArgNum\<close> and \<^verbatim>\<open>methodName\<close>.
  The switch has no default, so a callee that is neither an identifier nor a selector
  leaves both at their zero values and goes on.
\<close>

definition constCallee :: "node \<Rightarrow> (nat \<times> string) option" where
  "constCallee fn =
     (case fn of
        Ident p nm obj \<Rightarrow>
          (case constMetricArgs nm of None \<Rightarrow> None | Some requiredArgNum \<Rightarrow> Some (requiredArgNum, nm))
      | SelectorExpr p x sel \<Rightarrow>
          (case constMetricArgs sel of None \<Rightarrow> None | Some requiredArgNum \<Rightarrow> Some (requiredArgNum, sel))
      | _ \<Rightarrow> Some (0, []))"

text \<open>
  The second switch of \<^verbatim>\<open>parseSendMetricChanExpr\<close>: the value of \<^verbatim>\<open>metric.Type\<close>,
  from \<^verbatim>\<open>methodName\<close> and the arguments after the first. \<^verbatim>\<open>call.Args[1]\<close> panics
  when there is no second argument.
\<close>

definition constMetricType :: "string \<Rightarrow> node list \<Rightarrow> MetricType option res" where
  "constMetricType methodName rest =
     (if methodName = ''MustNewConstMetric''
      then (case rest of
              [] \<Rightarrow> Some (Inl IndexOutOfRange)
            | Ident p t obj # rest' \<Rightarrow> ret (getConstMetricType t)
            | SelectorExpr p x sel # rest' \<Rightarrow> ret (getConstMetricType sel)
            | a1 # rest' \<Rightarrow> ret None)
      else if methodName = ''MustNewHistogram'' then ret (Some HISTOGRAM)
      else if methodName = ''MustNewSummary'' then ret (Some SUMMARY)
      else ret None)"

text \<open>\<^verbatim>\<open>parseSendMetricChanExpr\<close>, on the field \<^verbatim>\<open>Value\<close> of the send statement.\<close>

definition parseSendMetricChanExpr :: "nat \<Rightarrow> env \<Rightarrow> visitor \<Rightarrow> node \<Rightarrow> visitor res" where
  "parseSendMetricChanExpr k e v val =
     (case val of
        CallExpr p fn args \<Rightarrow>
          (case constCallee fn of
             None \<Rightarrow> ret v
           | Some (requiredArgNum, methodName) \<Rightarrow>
               if length args < requiredArgNum \<and> strict v
               then ret (v\<lparr>issues := issues v @ [argCountIssue v p methodName requiredArgNum]\<rparr>)
               else (case args of
                       [] \<Rightarrow> Some (Inl IndexOutOfRange)
                     | a0 # rest \<Rightarrow>
                         bind_res (parseConstMetricOpts k e v a0) (\<lambda>(v1, nm, help).
                           case nm of
                             None \<Rightarrow> ret v1
                           | Some s \<Rightarrow>
                               bind_res (constMetricType methodName rest) (\<lambda>ty.
                                 ret (v1\<lparr>metrics := metrics v1 @
                                   [(\<lparr>Name = nm, Help = help, Type = ty\<rparr>, fs v1 p)]\<rparr>)))))
      | _ \<Rightarrow> ret v)"

subsection \<open>The walker\<close>

definition Visit :: "nat \<Rightarrow> env \<Rightarrow> visitor \<Rightarrow> node \<Rightarrow> visitor res" where
  "Visit k e v n =
     (case n of
        CallExpr p fn args \<Rightarrow> parseCallerExpr k e v p fn args
      | SendStmt p ch val \<Rightarrow> parseSendMetricChanExpr k e v val
      | _ \<Rightarrow> ret v)"

text \<open>The nodes \<^verbatim>\<open>ast.Walk\<close> descends into, in its order.\<close>

fun children :: "node \<Rightarrow> node list" where
  "children (BasicLit p k s) = []"
| "children (Ident p nm obj) = []"
| "children (ValueSpec p ns ty vs) = ns @ ty @ vs"
| "children (BinaryExpr p x oper y) = [x, y]"
| "children (CallExpr p f args) = f # args"
| "children (SelectorExpr p x sel) = [x]"
| "children (CompositeLit p ty elts) = ty @ elts"
| "children (KeyValueExpr p k x) = [k, x]"
| "children (AssignStmt p l r) = l @ r"
| "children (SendStmt p c x) = [c, x]"
| "children (OtherNode p t cs) = cs"

lemma size_list_weight: "size_list (\<lambda>c. 4 * size c + 1) xs \<le> 4 * size_list size xs"
  by (induction xs) simp_all

lemma size_children: "size_list (\<lambda>c. 4 * size c + 1) (children n) < 4 * size n + 1"
proof (cases n)
  case (ValueSpec p ns ty vs)
  then show ?thesis
    using size_list_weight [of ns] size_list_weight [of ty] size_list_weight [of vs]
    by simp
next
  case (CallExpr p f args)
  then show ?thesis using size_list_weight [of args] by simp
next
  case (CompositeLit p ty elts)
  then show ?thesis
    using size_list_weight [of ty] size_list_weight [of elts] by simp
next
  case (AssignStmt p l r)
  then show ?thesis
    using size_list_weight [of l] size_list_weight [of r] by simp
next
  case (OtherNode p t cs)
  then show ?thesis using size_list_weight [of cs] by simp
qed simp_all

text \<open>
  \<^verbatim>\<open>ast.Walk\<close> with this visitor: \<^verbatim>\<open>Visit\<close> never returns nil, so every node is visited
  before its children, and the closing \<^verbatim>\<open>Visit(nil)\<close> changes nothing. \<open>WalkList\<close> is
  the walk over a list of nodes, one after the other.
\<close>

function Walk :: "nat \<Rightarrow> env \<Rightarrow> visitor \<Rightarrow> node \<Rightarrow> visitor res"
  and WalkList :: "nat \<Rightarrow> env \<Rightarrow> visitor \<Rightarrow> node list \<Rightarrow> visitor res" where
  "Walk k e v n = bind_res (Visit k e v n) (\<lambda>v1. WalkList k e v1 (children n))"
| "WalkList k e v [] = ret v"
| "WalkList k e v (c # cs) = bind_res (Walk k e v c) (\<lambda>v1. WalkList k e v1 cs)"
  by pat_completeness auto
termination
  by (relation "measure (\<lambda>x. case x of
        Inl (k, e, v, n) \<Rightarrow> 4 * size n + 1
      | Inr (k, e, v, ns) \<Rightarrow> size_list (\<lambda>c. 4 * size c + 1) ns)")
     (use size_children in auto)

subsection \<open>The lint orchestrator\<close>

text \<open>The loop over \<^verbatim>\<open>v.metrics\<close>; an error of the validator is the panic of \<^verbatim>\<open>Run\<close>.\<close>

fun lintMetrics :: "env \<Rightarrow> Issue list \<Rightarrow> (MetricFamily \<times> Position) list \<Rightarrow> Issue list res" where
  "lintMetrics e iss [] = ret iss"
| "lintMetrics e iss ((m, mpos) # ms) =
     (case Lint e m of
        None \<Rightarrow> Some (Inl LintError)
      | Some problems \<Rightarrow>
          lintMetrics e
            (iss @ map (\<lambda>p. \<lparr>Pos = mpos, Metric = pMetric p, Text = pText p\<rparr>) problems) ms)"

text \<open>
  \<^verbatim>\<open>sort.Slice\<close> of Go's library, as the insertion sort it runs on a short slice: each
  element in turn is swapped leftwards while \<open>lt\<close> puts it before its left
  neighbour. \<open>insertLeft\<close> holds the part already sorted in reverse.
\<close>

fun insertLeft :: "('a \<Rightarrow> 'a \<Rightarrow> bool) \<Rightarrow> 'a \<Rightarrow> 'a list \<Rightarrow> 'a list" where
  "insertLeft lt x [] = [x]"
| "insertLeft lt x (y # ys) = (if lt x y then y # insertLeft lt x ys else x # y # ys)"

definition sort_Slice :: "('a \<Rightarrow> 'a \<Rightarrow> bool) \<Rightarrow> 'a list \<Rightarrow> 'a list" where
  "sort_Slice lt xs = rev (foldl (\<lambda>acc x. insertLeft lt x acc) [] xs)"

text \<open>The function \<^verbatim>\<open>less\<close> of \<^verbatim>\<open>Run\<close>: Go compares the two strings byte by byte.\<close>

definition less_Issue :: "Issue \<Rightarrow> Issue \<Rightarrow> bool" where
  "less_Issue a b = (Position_String (Pos a) < Position_String (Pos b))"

definition newVisitor :: "(pos \<Rightarrow> Position) \<Rightarrow> bool \<Rightarrow> visitor" where
  "newVisitor fset strictMode = \<lparr>fs = fset, metrics = [], issues = [], strict = strictMode\<rparr>"

definition Run :: "nat \<Rightarrow> env \<Rightarrow> (pos \<Rightarrow> Position) \<Rightarrow> node list \<Rightarrow> bool \<Rightarrow> Issue list res" where
  "Run k e fset files strictMode =
     bind_res (WalkList k e (newVisitor fset strictMode) files) (\<lambda>v.
       bind_res (lintMetrics e (issues v) (metrics v)) (\<lambda>iss.
         ret (sort_Slice less_Issue iss)))"

subsection \<open>Inputs for the examples\<close>

text \<open>
  A Go string literal in double quotes, and \<^verbatim>\<open>strconv.Unquote\<close> on the literals the
  examples use: a literal in double quotes without backslash, quote or newline inside,
  and a raw literal in back quotes, where the library drops carriage returns. On a
  literal with a backslash the library decodes the escapes; the examples have none, and
  every general theorem below holds for any \<open>Unquote\<close>.
\<close>

definition quote :: "string \<Rightarrow> string" where
  "quote s = CHR 0x22 # s @ [CHR 0x22]"

fun Unquote_plain :: "string \<Rightarrow> string option" where
  "Unquote_plain [] = None"
| "Unquote_plain (q # rest) =
     (if rest = [] \<or> last rest \<noteq> q then None
      else (let body = butlast rest in
        if q = CHR 0x60
        then (if CHR 0x60 \<in> set body then None else Some (filter (\<lambda>c. c \<noteq> CHR 0x0D) body))
        else if q = CHR 0x22
        then (if CHR 0x0A \<in> set body \<or> CHR 0x5C \<in> set body \<or> CHR 0x22 \<in> set body
              then None else Some body)
        else None))"

text \<open>A file set that puts offset \<open>p\<close> of \<^verbatim>\<open>main.go\<close> at line \<open>p div 100\<close>, column \<open>p mod 100\<close>.\<close>

definition posAt :: "pos \<Rightarrow> Position" where
  "posAt p = \<lparr>Filename = ''main.go'', Offset = p, Line = p div 100, Column = p mod 100\<rparr>"

text \<open>The declarations \<open>d\<close>, with a validator that finds nothing to report.\<close>

definition plainEnv :: "(objref \<Rightarrow> node option) \<Rightarrow> env" where
  "plainEnv d = \<lparr>Unquote = Unquote_plain, Decl = d, Lint = (\<lambda>m. Some [])\<rparr>"

definition noDecls :: "objref \<Rightarrow> node option" where
  "noDecls r = None"

text \<open>\<^verbatim>\<open>pkg.nm\<close>, \<^verbatim>\<open>key: "s"\<close>, and a string literal.\<close>

definition sel :: "pos \<Rightarrow> string \<Rightarrow> string \<Rightarrow> node" where
  "sel p pkg nm = SelectorExpr p (Ident p pkg None) nm"

definition strLit :: "pos \<Rightarrow> string \<Rightarrow> node" where
  "strLit p s = BasicLit p STRING (quote s)"

definition strField :: "pos \<Rightarrow> string \<Rightarrow> string \<Rightarrow> node" where
  "strField p key s = KeyValueExpr p (Ident p key None) (strLit (p + 10) s)"

text \<open>\<^verbatim>\<open>prometheus.NewDesc("my_metric", "help text", nil, nil)\<close> at offset \<open>p\<close>.\<close>

definition newDesc :: "pos \<Rightarrow> node" where
  "newDesc p = CallExpr p (sel p ''prometheus'' ''NewDesc'')
     [strLit (p + 20) ''my_metric'', strLit (p + 33) ''help text'',
      Ident (p + 46) ''nil'' None, Ident (p + 51) ''nil'' None]"




text \<open>\<^verbatim>\<open>var x = "a" + "b"\<close>, \<^verbatim>\<open>var y = x + "c"\<close> and \<^verbatim>\<open>var z = z\<close>, at the objects 0, 1 and 2.\<close>

definition chainDecls :: "objref \<Rightarrow> node option" where
  "chainDecls r =
     (if r = 0 then Some (ValueSpec 100 [Ident 100 ''x'' None] []
                      [BinaryExpr 104 (strLit 104 ''a'') ADD (strLit 110 ''b'')])
      else if r = 1 then Some (ValueSpec 120 [Ident 120 ''y'' None] []
                      [BinaryExpr 124 (Ident 124 ''x'' (Some 0)) ADD (strLit 128 ''c'')])
      else if r = 2 then Some (ValueSpec 140 [Ident 140 ''z'' (Some 2)] [] [Ident 144 ''z'' (Some 2)])
      else None)"

subsection \<open>The chain of declarations behind a value\<close>

text \<open>
  \<open>refs n\<close> are the objects whose declaration \<^verbatim>\<open>parseValue\<close> may open when it
  resolves \<open>n\<close>: the object of an identifier, those of the first value of a value-spec,
  those of the two operands of an addition. \<open>declRefs e r\<close> are the objects the
  declaration of \<open>r\<close> leads to, and \<open>finiteChain e r\<close> says that every chain of
  declarations starting at \<open>r\<close> ends: it is finite and has no cycle.
  \<open>selfDecls\<close> is the declaration \<^verbatim>\<open>var x = x\<close>, and \<open>returns e object n\<close> says that
  the resolver returns on \<open>n\<close> from every visitor, at some depth of calls.
\<close>

fun refs :: "node \<Rightarrow> objref set" where
  "refs (Ident p nm (Some r)) = {r}"
| "refs (ValueSpec p ns ty (x # xs)) = refs x"
| "refs (BinaryExpr p x oper y) = (if oper = ADD then refs x \<union> refs y else {})"
| "refs n = {}"

definition declRefs :: "env \<Rightarrow> objref \<Rightarrow> objref set" where
  "declRefs e r =
     (case Decl e r of
        Some (ValueSpec p ns ty vals) \<Rightarrow> refs (ValueSpec p ns ty vals)
      | _ \<Rightarrow> {})"

inductive finiteChain :: "env \<Rightarrow> objref \<Rightarrow> bool" for e :: env where
  step: "(\<And>r'. r' \<in> declRefs e r \<Longrightarrow> finiteChain e r') \<Longrightarrow> finiteChain e r"

definition selfDecls :: "objref \<Rightarrow> node option" where
  "selfDecls r =
     (if r = 0 then Some (ValueSpec 100 [Ident 100 ''x'' (Some 0)] [] [Ident 104 ''x'' (Some 0)])
      else None)"

definition returns :: "env \<Rightarrow> string \<Rightarrow> node \<Rightarrow> bool" where
  "returns e object n \<longleftrightarrow> (\<forall>v. \<exists>k res. parseValue k e v object n = Some res)"







subsection \<open>What a call may change in the visitor\<close>

text \<open>
  A structural issue is one with an empty metric name. \<open>grows v v'\<close> says that \<open>v'\<close> is
  \<open>v\<close> with structural issues added, and none in lenient mode; \<open>collects v v'\<close>
  allows descriptors added too, each with a name and with a kind or a help.
  \<open>lintIssues e ms\<close> are the problems of the validator on the descriptors \<open>ms\<close>, each
  wrapped into an issue at the position of its descriptor.
\<close>

definition structural :: "Issue \<Rightarrow> bool" where
  "structural i \<longleftrightarrow> Metric i = []"

definition grows :: "visitor \<Rightarrow> visitor \<Rightarrow> bool" where
  "grows v v' \<longleftrightarrow>
     fs v' = fs v \<and> strict v' = strict v \<and> metrics v' = metrics v \<and>
     (\<exists>new. issues v' = issues v @ new \<and> list_all structural new) \<and>
     (strict v \<or> issues v' = issues v)"

definition okDescriptor :: "MetricFamily \<times> Position \<Rightarrow> bool" where
  "okDescriptor mp \<longleftrightarrow>
     Name (fst mp) \<noteq> None \<and> (Type (fst mp) \<noteq> None \<or> Help (fst mp) \<noteq> None)"

definition collects :: "visitor \<Rightarrow> visitor \<Rightarrow> bool" where
  "collects v v' \<longleftrightarrow>
     fs v' = fs v \<and> strict v' = strict v \<and>
     (\<exists>ms. metrics v' = metrics v @ ms \<and> list_all okDescriptor ms) \<and>
     (\<exists>new. issues v' = issues v @ new \<and> list_all structural new) \<and>
     (strict v \<or> issues v' = issues v)"




text \<open>What a visitor has collected: its descriptors and its issues.\<close>

definition collected :: "visitor res \<Rightarrow> ((MetricFamily \<times> Position) list \<times> Issue list) res" where
  "collected r = bind_res r (\<lambda>v. ret (metrics v, issues v))"

section \<open>Properties of the embedding\<close>

subsection \<open>Results\<close>

lemma bind_res_simps [simp]:
  "bind_res None f = None"
  "bind_res (Some (Inl p)) f = Some (Inl p)"
  "bind_res (Some (Inr x)) f = f x"
  "bind_res (ret x) f = f x"
  by (simp_all add: bind_res_def ret_def)

lemma bind_res_Some:
  "bind_res m f = Some r \<longleftrightarrow>
     (\<exists>p. m = Some (Inl p) \<and> r = Inl p) \<or> (\<exists>x. m = Some (Inr x) \<and> f x = Some r)"
  by (auto simp: bind_res_def split: option.splits sum.splits)

lemma bind_res_Inr:
  "bind_res m f = Some (Inr y) \<longleftrightarrow> (\<exists>x. m = Some (Inr x) \<and> f x = Some (Inr y))"
  by (auto simp: bind_res_def split: option.splits sum.splits)

subsection \<open>The resolver on an identifier\<close>


subsection \<open>The resolver returns the same result at any greater depth\<close>

lemma parseValue_mono:
  "parseValue k e v f n = Some r \<Longrightarrow> k \<le> k' \<Longrightarrow> parseValue k' e v f n = Some r"
proof (induction k e v f n arbitrary: k' r rule: parseValue.induct)
  case (1 e v object n)
  then show ?case by simp
next
  case (2 k e v object p kind val)
  then obtain j where "k' = Suc j" by (auto dest: Suc_le_D)
  with 2 show ?case by simp
next
  case (3 k e v object p nm obj)
  then obtain j where j: "k' = Suc j" "k \<le> j" by (auto dest: Suc_le_D)
  show ?case
  proof (cases obj)
    case None
    with 3 j show ?thesis by simp
  next
    case (Some a)
    show ?thesis
    proof (cases "\<exists>p' ns ty vals. Decl e a = Some (ValueSpec p' ns ty vals)")
      case True
      then obtain p' ns ty vals where d: "Decl e a = Some (ValueSpec p' ns ty vals)" by blast
      from "3.prems"(1) Some d have "parseValue k e v object (ValueSpec p' ns ty vals) = Some r"
        by simp
      from "3.IH" [OF Some d _ this j(2)] have "parseValue j e v object (ValueSpec p' ns ty vals) = Some r"
        by simp
      with Some d j show ?thesis by simp
    next
      case False
      then have "parseValue (Suc k) e v object (Ident p nm obj) = ret (v, [], False)"
        and "parseValue (Suc j) e v object (Ident p nm obj) = ret (v, [], False)"
        using Some by (simp_all split: option.split node.split)
      with "3.prems"(1) j show ?thesis by simp
    qed
  qed
next
  case (4 k e v object p ns ty vals)
  then obtain j where j: "k' = Suc j" "k \<le> j" by (auto dest: Suc_le_D)
  show ?case
  proof (cases vals)
    case Nil
    with 4 j show ?thesis by simp
  next
    case (Cons x xs)
    with "4.prems"(1) have "parseValue k e v object x = Some r" by simp
    from "4.IH" [OF Cons this j(2)] Cons j show ?thesis by simp
  qed
next
  case (5 k e v object p x oper y)
  then obtain j where j: "k' = Suc j" "k \<le> j" by (auto dest: Suc_le_D)
  show ?case
  proof (cases "oper = ADD")
    case False
    with 5 j show ?thesis by simp
  next
    case True
    from "5.prems"(1) True obtain rx where rx: "parseValue k e v object x = Some rx"
      by (auto simp: bind_res_Some)
    have rx': "parseValue j e v object x = Some rx"
      using "5.IH"(1) [OF True rx j(2)] .
    show ?thesis
    proof (cases rx)
      case (Inl a)
      with "5.prems"(1) True rx have "r = Inl a" by simp
      with Inl True rx' j show ?thesis by simp
    next
      case (Inr t)
      obtain v1 sx okx where t: "t = (v1, sx, okx)" by (cases t)
      show ?thesis
      proof (cases okx)
        case False
        with "5.prems"(1) True rx Inr t have "r = Inr (v1, [], False)" by (simp add: ret_def)
        with False True rx' j Inr t show ?thesis by (simp add: ret_def)
      next
        case True': True
        from "5.prems"(1) True rx Inr t True' obtain ry where
          ry: "parseValue k e v1 object y = Some ry"
          by (auto simp: bind_res_Some)
        have ry': "parseValue j e v1 object y = Some ry"
          using "5.IH"(2) [OF True _ ry j(2), of okx] True' by simp
        from "5.prems"(1) True rx Inr t True' ry
        have "bind_res (Some ry) (\<lambda>(v2, sy, oky).
                 if \<not> oky then ret (v2, [], False) else ret (v2, sx @ sy, True)) = Some r"
          by simp
        with True rx' j Inr t True' ry' show ?thesis by simp
      qed
    qed
  qed
qed (auto dest!: Suc_le_D)


subsection \<open>The resolver returns on a finite chain of declarations\<close>

lemma returnsI: "(\<And>v. parseValue k e v object n = Some (res v)) \<Longrightarrow> returns e object n"
  unfolding returns_def by blast

lemma returns_refs:
  assumes "\<And>r p nm. r \<in> refs n \<Longrightarrow> returns e object (Ident p nm (Some r))"
  shows "returns e object n"
  using assms
proof (induction n)
  case (BasicLit p kind val)
  show ?case unfolding returns_def
  proof
    fix v
    have "\<exists>res. parseValue (Suc 0) e v object (BasicLit p kind val) = Some res"
      by (simp add: ret_def split: option.split)
    then show "\<exists>k res. parseValue k e v object (BasicLit p kind val) = Some res" by blast
  qed
next
  case (Ident p nm obj)
  show ?case
  proof (cases obj)
    case None
    have "\<And>v. parseValue (Suc 0) e v object (Ident p nm obj) = Some (Inr (v, [], False))"
      using None by (simp add: ret_def)
    then show ?thesis by (rule returnsI)
  next
    case (Some r)
    with Ident show ?thesis by simp
  qed
next
  case (ValueSpec p ns ty vals)
  show ?case
  proof (cases vals)
    case Nil
    have "\<And>v. parseValue (Suc 0) e v object (ValueSpec p ns ty vals) = Some (Inr (v, [], False))"
      using Nil by (simp add: ret_def)
    then show ?thesis by (rule returnsI)
  next
    case (Cons x xs)
    have "returns e object x"
      using ValueSpec.IH(3) [of x] ValueSpec.prems Cons by simp
    then show ?thesis unfolding returns_def
    proof (intro allI)
      fix v
      assume "\<forall>v. \<exists>k res. parseValue k e v object x = Some res"
      then obtain k res where "parseValue k e v object x = Some res" by blast
      then have "parseValue (Suc k) e v object (ValueSpec p ns ty vals) = Some res"
        using Cons by simp
      then show "\<exists>k res. parseValue k e v object (ValueSpec p ns ty vals) = Some res" by blast
    qed
  qed
next
  case (BinaryExpr p x oper y)
  show ?case
  proof (cases "oper = ADD")
    case False
    have "\<And>v. parseValue (Suc 0) e v object (BinaryExpr p x oper y) = Some (Inr (v, [], False))"
      using False by (simp add: ret_def)
    then show ?thesis by (rule returnsI)
  next
    case True
    have rx: "returns e object x" and ry: "returns e object y"
      using BinaryExpr True by simp_all
    show ?thesis unfolding returns_def
    proof
      fix v
      from rx obtain k1 r1 where k1: "parseValue k1 e v object x = Some r1"
        unfolding returns_def by blast
      show "\<exists>k res. parseValue k e v object (BinaryExpr p x oper y) = Some res"
      proof (cases r1)
        case (Inl a)
        with k1 True have "parseValue (Suc k1) e v object (BinaryExpr p x oper y) = Some (Inl a)"
          by simp
        then show ?thesis by blast
      next
        case (Inr t)
        obtain v1 sx okx where t: "t = (v1, sx, okx)" by (cases t)
        from ry obtain k2 r2 where k2: "parseValue k2 e v1 object y = Some r2"
          unfolding returns_def by blast
        have a: "parseValue (max k1 k2) e v object x = Some (Inr (v1, sx, okx))"
          using parseValue_mono [OF k1, of "max k1 k2"] Inr t by simp
        have b: "parseValue (max k1 k2) e v1 object y = Some r2"
          using parseValue_mono [OF k2, of "max k1 k2"] by simp
        have "\<exists>res. parseValue (Suc (max k1 k2)) e v object (BinaryExpr p x oper y) = Some res"
          using True a b by (cases r2) (auto simp: ret_def)
        then show ?thesis by blast
      qed
    qed
  qed
qed (rule returnsI [where k = "Suc 0"], simp add: ret_def)+

lemma finiteChain_returns:
  "finiteChain e r \<Longrightarrow> returns e object (Ident p nm (Some r))"
proof (induction arbitrary: p nm rule: finiteChain.induct)
  case (step r)
  show ?case
  proof (cases "\<exists>p' ns ty vals. Decl e r = Some (ValueSpec p' ns ty vals)")
    case True
    then obtain p' ns ty vals where d: "Decl e r = Some (ValueSpec p' ns ty vals)" by blast
    then have dr: "declRefs e r = refs (ValueSpec p' ns ty vals)" by (simp add: declRefs_def)
    have "returns e object (ValueSpec p' ns ty vals)"
    proof (rule returns_refs)
      fix r' q nm'
      assume "r' \<in> refs (ValueSpec p' ns ty vals)"
      with dr have "r' \<in> declRefs e r" by simp
      then show "returns e object (Ident q nm' (Some r'))" by (rule step.IH)
    qed
    then show ?thesis unfolding returns_def
    proof (intro allI)
      fix v
      assume "\<forall>v. \<exists>k res. parseValue k e v object (ValueSpec p' ns ty vals) = Some res"
      then obtain k res where "parseValue k e v object (ValueSpec p' ns ty vals) = Some res"
        by blast
      with d have "parseValue (Suc k) e v object (Ident p nm (Some r)) = Some res" by simp
      then show "\<exists>k res. parseValue k e v object (Ident p nm (Some r)) = Some res" by blast
    qed
  next
    case False
    then have "\<And>v. parseValue (Suc 0) e v object (Ident p nm (Some r)) = Some (Inr (v, [], False))"
      by (simp add: ret_def split: option.split node.split)
    then show ?thesis by (rule returnsI)
  qed
qed

lemma self_reference_diverges:
  "parseValue k (plainEnv selfDecls) v object (Ident p ''x'' (Some 0)) = None \<and>
   parseValue k (plainEnv selfDecls) v object
     (ValueSpec 100 [Ident 100 ''x'' (Some 0)] [] [Ident 104 ''x'' (Some 0)]) = None"
proof (induction k rule: less_induct)
  case (less k)
  show ?case
  proof (cases k)
    case 0
    then show ?thesis by simp
  next
    case (Suc j)
    show ?thesis
    proof (cases j)
      case 0
      with Suc show ?thesis by (simp add: plainEnv_def selfDecls_def)
    next
      case (Suc i)
      have "i < k" "j < k" using Suc \<open>k = Suc j\<close> by simp_all
      from less [OF this(1)] less [OF this(2)] Suc \<open>k = Suc j\<close> show ?thesis
        by (simp add: plainEnv_def selfDecls_def)
    qed
  qed
qed

subsection \<open>The sort\<close>









subsection \<open>Calls add structural issues and resolved descriptors only\<close>

lemma grows_refl [simp]: "grows v v"
  by (simp add: grows_def)

lemma grows_trans: "grows v v1 \<Longrightarrow> grows v1 v2 \<Longrightarrow> grows v v2"
  unfolding grows_def
  by (elim conjE exE) (simp, metis append.assoc list_all_append)

lemma grows_issue:
  "strict v \<Longrightarrow> Metric i = [] \<Longrightarrow> grows v (v\<lparr>issues := issues v @ [i]\<rparr>)"
  by (simp add: grows_def structural_def)

lemma grows_unsupported: "grows v (unsupported v object n)"
  by (simp add: unsupported_def grows_issue)

lemma parseValue_grows:
  "parseValue k e v f n = Some (Inr (v', s, ok)) \<Longrightarrow> grows v v'"
proof (induction k e v f n arbitrary: v' s ok rule: parseValue.induct)
  case (1 e v object n)
  then show ?case by simp
next
  case (2 k e v object p kind val)
  then have "v' = v" by (auto simp: ret_def split: if_splits option.splits)
  then show ?case by simp
next
  case (3 k e v object p nm obj)
  show ?case
  proof (cases obj)
    case None
    with 3 show ?thesis by (simp add: ret_def)
  next
    case (Some a)
    show ?thesis
    proof (cases "\<exists>p' ns ty vals. Decl e a = Some (ValueSpec p' ns ty vals)")
      case True
      then obtain p' ns ty vals where d: "Decl e a = Some (ValueSpec p' ns ty vals)" by blast
      from "3.prems" Some d
      have "parseValue k e v object (ValueSpec p' ns ty vals) = Some (Inr (v', s, ok))" by simp
      from "3.IH" [OF Some d _ this] show ?thesis by simp
    next
      case False
      then have "parseValue (Suc k) e v object (Ident p nm obj) = ret (v, [], False)"
        using Some by (simp split: option.split node.split)
      with "3.prems" show ?thesis by (simp add: ret_def)
    qed
  qed
next
  case (4 k e v object p ns ty vals)
  show ?case
  proof (cases vals)
    case Nil
    with 4 show ?thesis by (simp add: ret_def)
  next
    case (Cons x xs)
    with "4.prems" have "parseValue k e v object x = Some (Inr (v', s, ok))" by simp
    from "4.IH" [OF Cons this] show ?thesis .
  qed
next
  case (5 k e v object p x oper y)
  show ?case
  proof (cases "oper = ADD")
    case False
    with 5 show ?thesis by (simp add: ret_def)
  next
    case True
    from "5.prems" True obtain v1 sx okx where
      x: "parseValue k e v object x = Some (Inr (v1, sx, okx))" and
      rest: "(if \<not> okx then ret (v1, [], False)
              else bind_res (parseValue k e v1 object y) (\<lambda>(v2, sy, oky).
                     if \<not> oky then ret (v2, [], False) else ret (v2, sx @ sy, True)))
             = Some (Inr (v', s, ok))"
      by (auto simp: bind_res_Inr)
    have g1: "grows v v1" using "5.IH"(1) [OF True x] .
    show ?thesis
    proof (cases okx)
      case False
      with rest have "v' = v1" by (simp add: ret_def)
      with g1 show ?thesis by simp
    next
      case okx: True
      with rest obtain v2 sy oky where
        y: "parseValue k e v1 object y = Some (Inr (v2, sy, oky))" and
        fin: "(if \<not> oky then ret (v2, [], False) else ret (v2, sx @ sy, True))
              = Some (Inr (v', s, ok))"
        by (auto simp: bind_res_Inr)
      have "grows v1 v2" using "5.IH"(2) [OF True _ y, of okx] okx by simp
      moreover from fin have "v' = v2" by (simp add: ret_def split: if_splits)
      ultimately show ?thesis using g1 by (auto intro: grows_trans)
    qed
  qed
qed (auto simp: ret_def intro: grows_unsupported)


lemma parseElts_grows:
  "parseElts k e v mo hl elts = Some (Inr (v', r, h)) \<Longrightarrow> grows v v'"
proof (induction k e v mo hl elts arbitrary: v' r h rule: parseElts.induct)
  case (1 k e v mo hl)
  then show ?case by (simp add: ret_def)
next
  case (2 k e v mo hl p pk nm obj val elts)
  show ?case
  proof (cases "validOptsFields nm = None")
    case True
    with 2 show ?thesis by simp
  next
    case False
    with "2.prems" obtain v1 sl ok where
      pv: "parseValue k e v nm val = Some (Inr (v1, sl, ok))" and
      rest: "(if \<not> ok then ret (v1, None, None)
             else if nm = ''Namespace'' then parseElts k e v1 (mo\<lparr>namespace := sl\<rparr>) hl elts
             else if nm = ''Subsystem'' then parseElts k e v1 (mo\<lparr>subsystem := sl\<rparr>) hl elts
             else if nm = ''Name'' then parseElts k e v1 (mo\<lparr>name := sl\<rparr>) hl elts
             else if nm = ''Help'' then parseElts k e v1 mo (Some sl) elts
             else parseElts k e v1 mo hl elts) = Some (Inr (v', r, h))"
      by (auto simp: bind_res_Inr)
    have g1: "grows v v1" using pv by (rule parseValue_grows)
    have "grows v1 v'"
    proof (cases ok)
      case False
      with rest show ?thesis by (simp add: ret_def)
    next
      case True
      with rest False "2.IH"(2-6) show ?thesis
        by (auto split: if_splits)
    qed
    with g1 show ?thesis by (rule grows_trans)
  qed
qed simp_all

lemma parseOpts_grows:
  "parseOpts k e v n = Some (Inr (v', r, h)) \<Longrightarrow> grows v v'"
  unfolding parseOpts_def parseCompositeOpts_def
  by (auto simp: ret_def dest: parseElts_grows split: node.splits option.splits list.splits)

lemma parseNewDescCallExpr_grows:
  assumes "parseNewDescCallExpr k e v p args = Some (Inr (v', nm, h))"
  shows "grows v v' \<and> (nm = None \<or> h \<noteq> None)"
proof (cases "length args \<noteq> 4 \<and> strict v")
  case True
  with assms show ?thesis
    by (auto simp: parseNewDescCallExpr_def ret_def intro: grows_issue)
next
  case False
  with assms obtain a0 rest where args: "args = a0 # rest"
    by (cases args) (auto simp: parseNewDescCallExpr_def)
  from assms False args obtain v1 s1 ok1 where
    p1: "parseValue k e v ''fqName'' a0 = Some (Inr (v1, s1, ok1))" and
    r1: "(if \<not> ok1 then ret (v1, None, None)
          else (case rest of [] \<Rightarrow> Some (Inl IndexOutOfRange)
                | a1 # rest' \<Rightarrow> bind_res (parseValue k e v1 ''help'' a1) (\<lambda>(v2, help, ok').
                    if \<not> ok' then ret (v2, None, None) else ret (v2, Some s1, Some help))))
         = Some (Inr (v', nm, h))"
    by (auto simp: parseNewDescCallExpr_def bind_res_Inr)
  have g1: "grows v v1" using p1 by (rule parseValue_grows)
  show ?thesis
  proof (cases ok1)
    case False
    with r1 g1 show ?thesis by (simp add: ret_def)
  next
    case True
    with r1 obtain a1 rest' where rest: "rest = a1 # rest'" by (cases rest) auto
    from r1 True rest obtain v2 s2 ok2 where
      p2: "parseValue k e v1 ''help'' a1 = Some (Inr (v2, s2, ok2))" and
      r2: "(if \<not> ok2 then ret (v2, None, None) else ret (v2, Some s1, Some s2))
           = Some (Inr (v', nm, h))"
      by (auto simp: bind_res_Inr)
    have "grows v1 v2" using p2 by (rule parseValue_grows)
    with g1 have "grows v v2" by (rule grows_trans)
    with r2 show ?thesis by (auto simp: ret_def split: if_splits)
  qed
qed

lemma parseConstMetricOpts_grows:
  assumes "parseConstMetricOpts k e v n = Some (Inr (v', nm, h))"
  shows "grows v v' \<and> (nm = None \<or> h \<noteq> None)"
  using assms unfolding parseConstMetricOpts_def
  by (auto simp: ret_def dest: parseNewDescCallExpr_grows intro: grows_issue
      split: node.splits option.splits list.splits if_splits)


lemma collects_refl [simp]: "collects v v"
  by (simp add: collects_def)

lemma collects_trans: "collects v v1 \<Longrightarrow> collects v1 v2 \<Longrightarrow> collects v v2"
  unfolding collects_def
  by (elim conjE exE) (simp, metis append.assoc list_all_append)

lemma grows_collects: "grows v v' \<Longrightarrow> collects v v'"
  by (auto simp: grows_def collects_def)

lemma collects_record:
  "grows v v1 \<Longrightarrow> okDescriptor mp \<Longrightarrow> collects v (v1\<lparr>metrics := metrics v1 @ [mp]\<rparr>)"
  by (auto simp: grows_def collects_def)

lemma parseCallerExpr_collects:
  assumes "parseCallerExpr k e v p fn args = Some (Inr v')"
  shows "collects v v'"
proof (cases "calleeName fn")
  case None
  with assms show ?thesis by (simp add: parseCallerExpr_def ret_def)
next
  case (Some methodName)
  show ?thesis
  proof (cases "metricsType methodName")
    case None
    with assms Some show ?thesis by (simp add: parseCallerExpr_def ret_def)
  next
    case (Some metricType)
    note mt = Some
    show ?thesis
    proof (cases "length args < 1 \<and> strict v")
      case True
      with assms \<open>calleeName fn = Some methodName\<close> mt
      have "v' = v\<lparr>issues := issues v @
          [argCountIssue v p methodName (if HasSuffix methodName ''Vec'' then 2 else 1)]\<rparr>"
        by (simp add: parseCallerExpr_def ret_def Let_def)
      moreover have "grows v (v\<lparr>issues := issues v @
          [argCountIssue v p methodName (if HasSuffix methodName ''Vec'' then 2 else 1)]\<rparr>)"
        using True by (intro grows_issue) (simp_all add: argCountIssue_def)
      ultimately show ?thesis by (simp add: grows_collects)
    next
      case False
      with assms \<open>calleeName fn = Some methodName\<close> mt obtain a0 rest where args: "args = a0 # rest"
        by (cases args) (auto simp: parseCallerExpr_def Let_def)
      from assms \<open>calleeName fn = Some methodName\<close> mt False args obtain v1 opts hl where
        po: "parseOpts k e v a0 = Some (Inr (v1, opts, hl))" and
        r: "(case opts of None \<Rightarrow> ret v1
             | Some mo \<Rightarrow> ret (v1\<lparr>metrics := metrics v1 @
                 [(\<lparr>Name = Some (BuildFQName (namespace mo) (subsystem mo) (name mo)),
                    Help = hl, Type = Some metricType\<rparr>, fs v (node_Pos a0))]\<rparr>)) = Some (Inr v')"
        by (auto simp: parseCallerExpr_def Let_def bind_res_Inr)
      have g: "grows v v1" using po by (rule parseOpts_grows)
      show ?thesis
      proof (cases opts)
        case None
        with r g show ?thesis by (auto simp: ret_def intro: grows_collects)
      next
        case (Some mo)
        with r have "v' = v1\<lparr>metrics := metrics v1 @
                 [(\<lparr>Name = Some (BuildFQName (namespace mo) (subsystem mo) (name mo)),
                    Help = hl, Type = Some metricType\<rparr>, fs v (node_Pos a0))]\<rparr>"
          by (simp add: ret_def)
        then show ?thesis using g by (auto intro!: collects_record simp: okDescriptor_def)
      qed
    qed
  qed
qed

lemma parseSendMetricChanExpr_collects:
  assumes "parseSendMetricChanExpr k e v val = Some (Inr v')"
  shows "collects v v'"
proof (cases "\<exists>p fn args. val = CallExpr p fn args")
  case False
  with assms have "v' = v"
    by (cases val) (auto simp: parseSendMetricChanExpr_def ret_def)
  then show ?thesis by simp
next
  case True
  then obtain p fn args where val: "val = CallExpr p fn args" by blast
  show ?thesis
  proof (cases "constCallee fn")
    case None
    with assms val show ?thesis by (simp add: parseSendMetricChanExpr_def ret_def)
  next
    case (Some a)
    obtain requiredArgNum methodName where a: "a = (requiredArgNum, methodName)" by (cases a)
    show ?thesis
    proof (cases "length args < requiredArgNum \<and> strict v")
      case True
      with assms val Some a
      have "v' = v\<lparr>issues := issues v @ [argCountIssue v p methodName requiredArgNum]\<rparr>"
        by (simp add: parseSendMetricChanExpr_def ret_def)
      moreover have "grows v (v\<lparr>issues := issues v @ [argCountIssue v p methodName requiredArgNum]\<rparr>)"
        using True by (intro grows_issue) (simp_all add: argCountIssue_def)
      ultimately show ?thesis by (simp add: grows_collects)
    next
      case False
      with assms val Some a obtain a0 rest where args: "args = a0 # rest"
        by (cases args) (auto simp: parseSendMetricChanExpr_def)
      from assms val Some a False args obtain v1 nm hl where
        pc: "parseConstMetricOpts k e v a0 = Some (Inr (v1, nm, hl))" and
        r: "(case nm of None \<Rightarrow> ret v1
             | Some s \<Rightarrow> bind_res (constMetricType methodName rest) (\<lambda>ty.
                 ret (v1\<lparr>metrics := metrics v1 @
                   [(\<lparr>Name = nm, Help = hl, Type = ty\<rparr>, fs v1 p)]\<rparr>))) = Some (Inr v')"
        by (auto simp: parseSendMetricChanExpr_def bind_res_Inr)
      from parseConstMetricOpts_grows [OF pc]
      have g: "grows v v1" and nh: "nm = None \<or> hl \<noteq> None" by simp_all
      show ?thesis
      proof (cases nm)
        case None
        with r g show ?thesis by (auto simp: ret_def intro: grows_collects)
      next
        case (Some s)
        with r obtain ty where
          "v' = v1\<lparr>metrics := metrics v1 @ [(\<lparr>Name = nm, Help = hl, Type = ty\<rparr>, fs v1 p)]\<rparr>"
          by (auto simp: bind_res_Inr ret_def)
        then show ?thesis using g nh Some
          by (auto intro!: collects_record simp: okDescriptor_def)
      qed
    qed
  qed
qed

lemma Visit_collects: "Visit k e v n = Some (Inr v') \<Longrightarrow> collects v v'"
  by (cases n)
     (auto simp: Visit_def ret_def dest: parseCallerExpr_collects parseSendMetricChanExpr_collects)

lemma Walk_collects: "Walk k e v n = Some (Inr v') \<Longrightarrow> collects v v'"
  and WalkList_collects: "WalkList k e v ns = Some (Inr v') \<Longrightarrow> collects v v'"
proof (induction k e v n and k e v ns arbitrary: v' and v' rule: Walk_WalkList.induct)
  case (1 k e v n)
  from "1.prems" obtain v1 where a: "Visit k e v n = Some (Inr v1)"
    and b: "WalkList k e v1 (children n) = Some (Inr v')"
    by (auto simp: bind_res_Inr)
  from a have "collects v v1" by (rule Visit_collects)
  moreover from "1.IH" [OF b] have "collects v1 v'" .
  ultimately show ?case by (rule collects_trans)
next
  case (2 k e v)
  then show ?case by (simp add: ret_def)
next
  case (3 k e v c cs)
  from "3.prems" obtain v1 where a: "Walk k e v c = Some (Inr v1)"
    and b: "WalkList k e v1 cs = Some (Inr v')"
    by (auto simp: bind_res_Inr)
  from "3.IH"(1) [OF a] have "collects v v1" .
  moreover from "3.IH"(2) [OF b] have "collects v1 v'" .
  ultimately show ?case by (rule collects_trans)
qed




section \<open>The claims\<close>

subsection \<open>C1: a Vec constructor with one argument\<close>

text \<open>
  C1 asks that a direct constructor called with fewer arguments than its minimum (two
  for a constructor whose name ends in \<^verbatim>\<open>Vec\<close>) gives, in strict mode, exactly one
  structural issue and no descriptor. \<^verbatim>\<open>parseCallerExpr\<close> computes \<^verbatim>\<open>argNum = 2\<close> for
  such a constructor and prints it in the message, but compares the number of
  arguments with the constant 1. In strict mode the call
  \<^verbatim>\<open>prometheus.NewCounterVec(prometheus.CounterOpts{Name: "requests_total", Help: "h"})\<close>
  therefore raises no issue and records a descriptor.
\<close>

theorem C1_vec_one_argument_accepted:
  "collected (parseCallerExpr 5 (plainEnv noDecls) (newVisitor posAt True) 305
     (sel 305 ''prometheus'' ''NewCounterVec'')
     [CompositeLit 330 [sel 330 ''prometheus'' ''CounterOpts'']
        [strField 350 ''Name'' ''requests_total'', strField 380 ''Help'' ''h'']])
   = Some (Inr
       ([(\<lparr>Name = Some ''requests_total'', Help = Some ''h'', Type = Some COUNTER\<rparr>, posAt 330)],
        []))"
  by code_simp

subsection \<open>C2: a constructor without arguments in lenient mode\<close>

text \<open>
  C2 asks that a malformed call site, such as a constructor called with no argument, is
  skipped in lenient mode without any issue and without a fatal error. The guard of
  \<^verbatim>\<open>parseCallerExpr\<close> is \<^verbatim>\<open>len(call.Args) < 1 && v.strict\<close>: when strict is false the
  function goes on to \<^verbatim>\<open>call.Args[0]\<close>, which panics on a call without arguments. The
  run over a file holding \<^verbatim>\<open>prometheus.NewCounter()\<close> ends in that panic.
\<close>

theorem C2_lenient_empty_call_panics:
  "Run 5 (plainEnv noDecls) posAt
     [OtherNode 1 ''*ast.File'' [CallExpr 305 (sel 305 ''prometheus'' ''NewCounter'') []]] False
   = Some (Inl IndexOutOfRange)"
  by code_simp

subsection \<open>C6: the kind of a const metric\<close>

text \<open>
  C6 asks that the generic const-metric constructor gives Counter for \<^verbatim>\<open>CounterValue\<close>,
  Gauge for \<^verbatim>\<open>GaugeValue\<close> and Untyped for any other second argument.
  \<^verbatim>\<open>getConstMetricType\<close> has that default, but the type switch of
  \<^verbatim>\<open>parseSendMetricChanExpr\<close> calls it only for an identifier or a selector; for a second
  argument of any other shape, here the conversion \<^verbatim>\<open>prometheus.ValueType(1)\<close>,
  no case applies and the descriptor is recorded with a nil kind.
\<close>

theorem C6_kind_left_nil:
  "collected (parseSendMetricChanExpr 5 (plainEnv noDecls) (newVisitor posAt True)
     (CallExpr 410 (sel 410 ''prometheus'' ''MustNewConstMetric'')
        [newDesc 440,
         CallExpr 520 (sel 520 ''prometheus'' ''ValueType'') [BasicLit 541 INT_tok ''1''],
         BasicLit 545 FLOAT ''1.0'']))
   = Some (Inr
       ([(\<lparr>Name = Some ''my_metric'', Help = Some ''help text'', Type = None\<rparr>, posAt 410)],
        []))"
  by code_simp

subsection \<open>C9: termination of the resolver\<close>

text \<open>
  C9: for every field-value expression whose chain of identifier declarations is finite
  and acyclic, the resolver terminates: at some depth of calls \<^verbatim>\<open>parseValue\<close> returns
  (a string, a failure, or the panic of \<^verbatim>\<open>mustUnquote\<close>). The recursion has no guard:
  on the declaration \<^verbatim>\<open>var x = x\<close> no depth of calls is enough.
\<close>

theorem C9_resolver_terminates:
  "((\<forall>r \<in> refs n. finiteChain e r) \<longrightarrow> (\<exists>k res. parseValue k e v object n = Some res)) \<and>
   (\<forall>k. parseValue k (plainEnv selfDecls) v object (Ident p ''x'' (Some 0)) = None)"
proof (intro conjI impI allI)
  assume fin: "\<forall>r \<in> refs n. finiteChain e r"
  have "returns e object n"
  proof (rule returns_refs)
    fix r q nm
    assume "r \<in> refs n"
    with fin have "finiteChain e r" by blast
    then show "returns e object (Ident q nm (Some r))" by (rule finiteChain_returns)
  qed
  then show "\<exists>k res. parseValue k e v object n = Some res"
    unfolding returns_def by blast
next
  fix k
  show "parseValue k (plainEnv selfDecls) v object (Ident p ''x'' (Some 0)) = None"
    using self_reference_diverges by blast
qed

text \<open>
  A witness: \<^verbatim>\<open>var x = "a" + "b"\<close> and \<^verbatim>\<open>var y = x + "c"\<close>, beside the cyclic
  \<^verbatim>\<open>var z = z\<close>; the chain from \<open>y\<close> is finite and the resolver returns on \<open>y\<close>.
\<close>

theorem C9_resolver_terminates_witness:
  "finiteChain (plainEnv chainDecls) 1 \<and>
   (\<exists>k res. parseValue k (plainEnv chainDecls) (newVisitor posAt True) ''Name''
      (Ident 300 ''y'' (Some 1)) = Some res)"
proof -
  have r0: "declRefs (plainEnv chainDecls) 0 = {}"
    by (simp add: declRefs_def plainEnv_def chainDecls_def strLit_def)
  have r1: "declRefs (plainEnv chainDecls) 1 = {0}"
    by (simp add: declRefs_def plainEnv_def chainDecls_def strLit_def)
  have f0: "finiteChain (plainEnv chainDecls) 0"
    by (rule finiteChain.step) (simp add: r0)
  have f1: "finiteChain (plainEnv chainDecls) 1"
  proof (rule finiteChain.step)
    fix r'
    assume "r' \<in> declRefs (plainEnv chainDecls) 1"
    with r1 have "r' = 0" by blast
    with f0 show "finiteChain (plainEnv chainDecls) r'" by blast
  qed
  have "\<forall>r \<in> refs (Ident 300 ''y'' (Some 1)). finiteChain (plainEnv chainDecls) r"
    using f1 by simp
  with C9_resolver_terminates [of "Ident 300 ''y'' (Some 1)" "plainEnv chainDecls"
      "newVisitor posAt True" "''Name''"] f1
  show ?thesis by blast
qed

subsection \<open>C8: the issues are returned in order\<close>



subsection \<open>C4: what every recorded descriptor has\<close>




subsection \<open>C10: structural issues carry no metric name\<close>



subsection \<open>C3: the resolver on an identifier\<close>




end
